theory Spec2Isabelle
  imports Main "HOL-Library.Word"
begin

section \<open>Storage model\<close>

text \<open>
  The library \<^verbatim>\<open>stackie/sstring.hpp\<close> has one class, \<^verbatim>\<open>sstring<N>\<close>, whose only data
  member is the array \<^verbatim>\<open>char s[N + 1]\<close>. A \<^verbatim>\<open>char\<close> is an 8-bit value that the code only
  copies and compares with \<^verbatim>\<open>'\0'\<close>; an array is the list of its elements, and its
  length is the declared size of the array. The template parameters \<^verbatim>\<open>N\<close> and \<^verbatim>\<open>M\<close> are
  explicit arguments of type \<open>nat\<close>: the code computes nothing with them but
  \<^verbatim>\<open>std::min\<close>, so no \<^verbatim>\<open>size_t\<close> arithmetic can wrap.

  C++ does not check array indices. An access outside the array is undefined behaviour;
  the model makes it the result \<open>Inl OutOfBounds\<close>, so that a theorem saying that a
  function returns \<open>Inr\<close> also says that all of its accesses are inside the arrays
  it was given.

  A function that writes to an array takes the array and returns the new one. The arrays
  a function receives are separate values, which is right for a source that does not
  overlap the destination object; the pointer overload is given a second time on a
  store, for a pointer into the destination.
\<close>

type_synonym byte = "8 word"

datatype fault = OutOfBounds

text \<open>
  \<^verbatim>\<open>std::strlen(p)\<close>: the number of elements before the first \<^verbatim>\<open>'\0'\<close>, scanning the
  array that \<^verbatim>\<open>p\<close> points to from its first element. An array with no \<^verbatim>\<open>'\0'\<close> makes the
  scan leave the array.
\<close>

fun strlen :: "byte list \<Rightarrow> fault + nat" where
  "strlen [] = Inl OutOfBounds"
| "strlen (c # cs) =
     (if c = 0 then Inr 0
      else (case strlen cs of Inl e \<Rightarrow> Inl e | Inr n \<Rightarrow> Inr (Suc n)))"

text \<open>
  \<^verbatim>\<open>std::copy_n(first, count, result)\<close> is the loop
  \<^verbatim>\<open>for (; count > 0; --count) *result++ = *first++;\<close>.
  In \<open>copy_from i src k dst\<close> the number \<open>i\<close> is the offset both pointers have
  reached and \<open>k\<close> the count that is left.
\<close>

fun copy_from :: "nat \<Rightarrow> byte list \<Rightarrow> nat \<Rightarrow> byte list \<Rightarrow> fault + byte list" where
  "copy_from i src 0 dst = Inr dst"
| "copy_from i src (Suc k) dst =
     (if i < length src \<and> i < length dst
      then copy_from (Suc i) src k (dst[i := src ! i])
      else Inl OutOfBounds)"

definition copy_n :: "byte list \<Rightarrow> nat \<Rightarrow> byte list \<Rightarrow> fault + byte list" where
  "copy_n src n dst = copy_from 0 src n dst"

text \<open>A checked store \<^verbatim>\<open>a[i] = c\<close>.\<close>

definition store :: "byte list \<Rightarrow> nat \<Rightarrow> byte \<Rightarrow> fault + byte list" where
  "store a i c = (if i < length a then Inr (a[i := c]) else Inl OutOfBounds)"

section \<open>The truncating copy\<close>

text \<open>
  \<^verbatim>\<open>
  template <size_t N>
  void copy_n_impl(const char src[], const size_t src_len, char dst[]) noexcept {
      const auto min_len = std::min(src_len, N);
      std::copy_n(src, min_len, dst);
      dst[min_len] = '\0';
  }
  \<close>
  The function mutates \<^verbatim>\<open>dst\<close> in place; the model returns the new array.
\<close>

definition copy_n_impl :: "nat \<Rightarrow> byte list \<Rightarrow> nat \<Rightarrow> byte list \<Rightarrow> fault + byte list" where
  "copy_n_impl N src src_len dst =
     (let min_len = min src_len N in
      case copy_n src min_len dst of
        Inl e \<Rightarrow> Inl e
      | Inr dst' \<Rightarrow> store dst' min_len 0)"

section \<open>The class \<^verbatim>\<open>sstring<N>\<close>\<close>

text \<open>
  An object of \<^verbatim>\<open>sstring<N>\<close> is its member \<^verbatim>\<open>s\<close>, an array of \<open>N + 1\<close> bytes.
  \<open>sstring_storage N a\<close> says that \<open>a\<close> has that size. A constructor runs on the raw
  storage of the new object, whose bytes are indeterminate: the storage is the last
  argument of each constructor below, and the theorems hold for all of its contents.
\<close>

definition sstring_storage :: "nat \<Rightarrow> byte list \<Rightarrow> bool" where
  "sstring_storage N a = (length a = Suc N)"

text \<open>\<^verbatim>\<open>c_str()\<close> returns \<^verbatim>\<open>s\<close>, \<^verbatim>\<open>capacity()\<close> returns \<^verbatim>\<open>N\<close>, \<^verbatim>\<open>length()\<close> returns
  \<^verbatim>\<open>std::strlen(s)\<close>.\<close>

definition c_str :: "byte list \<Rightarrow> byte list" where
  "c_str this = this"


definition sstring_length :: "byte list \<Rightarrow> fault + nat" where
  "sstring_length this = strlen this"

text \<open>
  A \<^verbatim>\<open>std::string\<close> is the list of its characters (which may contain \<^verbatim>\<open>'\0'\<close>);
  its \<^verbatim>\<open>length()\<close> is their number and its \<^verbatim>\<open>c_str()\<close> points to an array holding
  them followed by one \<^verbatim>\<open>'\0'\<close>.
\<close>

definition string_length :: "byte list \<Rightarrow> nat" where
  "string_length str = length str"

definition string_c_str :: "byte list \<Rightarrow> byte list" where
  "string_c_str str = str @ [0]"

subsection \<open>Assignment operators\<close>

text \<open>
  \<^verbatim>\<open>operator=(const sstring<M> &rhs)\<close>: \<^verbatim>\<open>copy_n_impl<N>(rhs.c_str(), M, s)\<close>.
\<close>

definition assign_sstring :: "nat \<Rightarrow> nat \<Rightarrow> byte list \<Rightarrow> byte list \<Rightarrow> fault + byte list" where
  "assign_sstring N M rhs this = copy_n_impl N (c_str rhs) M this"

text \<open>
  \<^verbatim>\<open>operator=(const char (&rhs)[M])\<close>: \<^verbatim>\<open>copy_n_impl<N>(rhs, M, s)\<close>. The array \<open>rhs\<close>
  has \<open>M\<close> elements.
\<close>

definition assign_array :: "nat \<Rightarrow> nat \<Rightarrow> byte list \<Rightarrow> byte list \<Rightarrow> fault + byte list" where
  "assign_array N M rhs this = copy_n_impl N rhs M this"

text \<open>
  \<^verbatim>\<open>operator=(const char rhs[])\<close>: \<^verbatim>\<open>copy_n_impl<N>(rhs, std::strlen(rhs), s)\<close>. The
  argument is the array the pointer points into, from the pointed element on.
\<close>

definition assign_ptr :: "nat \<Rightarrow> byte list \<Rightarrow> byte list \<Rightarrow> fault + byte list" where
  "assign_ptr N rhs this =
     (case strlen rhs of
        Inl e \<Rightarrow> Inl e
      | Inr n \<Rightarrow> copy_n_impl N rhs n this)"

text \<open>
  \<^verbatim>\<open>operator=(const std::string &rhs)\<close>:
  \<^verbatim>\<open>copy_n_impl<N>(rhs.c_str(), rhs.length(), s)\<close>.
\<close>

definition assign_string :: "nat \<Rightarrow> byte list \<Rightarrow> byte list \<Rightarrow> fault + byte list" where
  "assign_string N rhs this = copy_n_impl N (string_c_str rhs) (string_length rhs) this"

subsection \<open>Constructors\<close>


text \<open>
  The class declares neither a copy constructor nor a copy assignment operator, and a
  member template is never one, so the compiler declares both. Each copies the member
  \<^verbatim>\<open>s\<close> element by element, all \<open>N + 1\<close> of them. For an argument of the type
  \<^verbatim>\<open>sstring<N>\<close> itself they are selected before the member templates.
\<close>

definition implicit_copy :: "nat \<Rightarrow> byte list \<Rightarrow> byte list \<Rightarrow> fault + byte list" where
  "implicit_copy N rhs this = copy_n rhs (Suc N) this"

text \<open>
  The body of each converting constructor is \<^verbatim>\<open>*this = rhs\<close>; the assignment operator
  it runs is the one overload resolution selects for the parameter \<^verbatim>\<open>rhs\<close>.

  \<^verbatim>\<open>sstring(const sstring<M> &rhs)\<close>: for \<open>M \<noteq> N\<close> the member template
  \<^verbatim>\<open>operator=(const sstring<M> &)\<close>; for \<open>M = N\<close> construction from an \<^verbatim>\<open>sstring<N>\<close> is
  the implicit copy.
\<close>

definition ctor_sstring :: "nat \<Rightarrow> nat \<Rightarrow> byte list \<Rightarrow> byte list \<Rightarrow> fault + byte list" where
  "ctor_sstring N M rhs raw =
     (if M = N then implicit_copy N rhs raw else assign_sstring N M rhs raw)"

text \<open>
  \<^verbatim>\<open>sstring(const char (&rhs)[M])\<close>: in the body \<^verbatim>\<open>rhs\<close> is an lvalue of type
  \<^verbatim>\<open>const char[M]\<close>, for which the template \<^verbatim>\<open>operator=(const char (&)[M])\<close> and the
  non-template \<^verbatim>\<open>operator=(const char [])\<close> are both exact matches; the non-template one
  wins. The constructor measures the array with \<^verbatim>\<open>std::strlen\<close> and does not use \<open>M\<close>.
\<close>

definition ctor_array :: "nat \<Rightarrow> nat \<Rightarrow> byte list \<Rightarrow> byte list \<Rightarrow> fault + byte list" where
  "ctor_array N M rhs raw = assign_ptr N rhs raw"

text \<open>
  \<^verbatim>\<open>sstring(const char rhs[])\<close> and \<^verbatim>\<open>sstring(const std::string &rhs)\<close> run the
  assignment operator of their own parameter type.
\<close>

definition ctor_ptr :: "nat \<Rightarrow> byte list \<Rightarrow> byte list \<Rightarrow> fault + byte list" where
  "ctor_ptr N rhs raw = assign_ptr N rhs raw"

definition ctor_string :: "nat \<Rightarrow> byte list \<Rightarrow> byte list \<Rightarrow> fault + byte list" where
  "ctor_string N rhs raw = assign_string N rhs raw"

subsection \<open>The overload set\<close>

text \<open>
  \<^verbatim>\<open>operator=\<close> and the converting constructor are overloaded on four parameter types. A
  value of \<open>source\<close> is an argument together with the overload that receives it.
  \<open>assign\<close> runs the assignment operator named by the source, as it is written, and
  \<open>construct\<close> the constructor.
\<close>

datatype source =
    FromSString nat "byte list"
  | FromArray nat "byte list"
  | FromPtr "byte list"
  | FromString "byte list"

fun assign :: "nat \<Rightarrow> source \<Rightarrow> byte list \<Rightarrow> fault + byte list" where
  "assign N (FromSString M rhs) this = assign_sstring N M rhs this"
| "assign N (FromArray M rhs) this = assign_array N M rhs this"
| "assign N (FromPtr rhs) this = assign_ptr N rhs this"
| "assign N (FromString rhs) this = assign_string N rhs this"

fun construct :: "nat \<Rightarrow> source \<Rightarrow> byte list \<Rightarrow> fault + byte list" where
  "construct N (FromSString M rhs) raw = ctor_sstring N M rhs raw"
| "construct N (FromArray M rhs) raw = ctor_array N M rhs raw"
| "construct N (FromPtr rhs) raw = ctor_ptr N rhs raw"
| "construct N (FromString rhs) raw = ctor_string N rhs raw"


text \<open>
  What the parameter types promise about an argument: an \<^verbatim>\<open>sstring<M>\<close> has an array
  of \<open>M + 1\<close> bytes, a \<^verbatim>\<open>const char (&)[M]\<close> refers to an array of \<open>M\<close> bytes, a
  \<^verbatim>\<open>const char []\<close> argument is documented as null terminated, and a \<^verbatim>\<open>std::string\<close>
  is any sequence of bytes.
\<close>

fun well_formed :: "source \<Rightarrow> bool" where
  "well_formed (FromSString M rhs) = sstring_storage M rhs"
| "well_formed (FromArray M rhs) = (length rhs = M)"
| "well_formed (FromPtr rhs) = (0 \<in> set rhs)"
| "well_formed (FromString rhs) = True"



text \<open>
  The first and second argument that each assignment operator passes to
  \<^verbatim>\<open>copy_n_impl\<close>: the array it reads and the count it declares for it.
\<close>

fun source_array :: "source \<Rightarrow> byte list" where
  "source_array (FromSString M rhs) = c_str rhs"
| "source_array (FromArray M rhs) = rhs"
| "source_array (FromPtr rhs) = rhs"
| "source_array (FromString rhs) = string_c_str rhs"

fun source_count :: "source \<Rightarrow> fault + nat" where
  "source_count (FromSString M rhs) = Inr M"
| "source_count (FromArray M rhs) = Inr M"
| "source_count (FromPtr rhs) = strlen rhs"
| "source_count (FromString rhs) = Inr (string_length rhs)"

subsection \<open>Stream insertion\<close>

text \<open>
  \<^verbatim>\<open>operator<<(std::ostream &stream, const sstring<N> &rhs)\<close> returns
  \<^verbatim>\<open>stream << rhs.c_str()\<close>, the standard library's formatted inserter for
  \<^verbatim>\<open>const char *\<close>. The part of a \<^verbatim>\<open>std::ostream\<close> that the inserter reads and writes:
  whether the stream is good, its field width, its fill character, whether it adjusts to
  the left, and the characters it has received.
\<close>

record ostream =
  good :: bool
  width :: nat
  fill :: byte
  adjust_left :: bool
  written :: "byte list"

text \<open>
  Streams are objects passed by reference: \<open>streams\<close> holds the state of each stream at
  its address, and the operators take and return an address. The inserter takes
  \<^verbatim>\<open>std::strlen\<close> of its argument. On a stream that is not good it writes nothing. On a
  good stream it writes the characters before the terminator, padded with the fill
  character up to the field width (before them, or after them when the stream adjusts to
  the left), and resets the width to 0. It returns the stream.
\<close>

type_synonym streams = "ostream list"

definition ostream_insert_cstr ::
  "streams \<Rightarrow> nat \<Rightarrow> byte list \<Rightarrow> fault + (streams \<times> nat)" where
  "ostream_insert_cstr \<sigma> stream p =
     (case strlen p of
        Inl e \<Rightarrow> Inl e
      | Inr n \<Rightarrow>
          if \<not> stream < length \<sigma> then Inl OutOfBounds
          else
            (let os = \<sigma> ! stream in
             if \<not> good os then Inr (\<sigma>, stream)
             else
               (let pad = replicate (width os - n) (fill os);
                    out = (if adjust_left os then take n p @ pad else pad @ take n p)
                in Inr (\<sigma>[stream := os\<lparr>width := 0, written := written os @ out\<rparr>],
                        stream))))"

definition ostream_insert ::
  "streams \<Rightarrow> nat \<Rightarrow> byte list \<Rightarrow> fault + (streams \<times> nat)" where
  "ostream_insert \<sigma> stream rhs = ostream_insert_cstr \<sigma> stream (c_str rhs)"

subsection \<open>The pointer overload on shared storage\<close>

text \<open>
  The definitions above give every function its arrays as separate values. A
  \<^verbatim>\<open>const char *\<close> can also point into the array of the object that is assigned to
  (\<^verbatim>\<open>c_str()\<close> hands that pointer out). For such calls the arrays live in a store: a
  \<open>heap\<close> holds each array at its address, and a pointer is the address of an array and
  an offset into it. \<open>strlen_at\<close>, \<open>copy_from_at\<close>, \<open>copy_n_impl_at\<close> and
  \<open>assign_ptr_at\<close> are \<^verbatim>\<open>std::strlen\<close>, the loop of \<^verbatim>\<open>std::copy_n\<close>, \<^verbatim>\<open>copy_n_impl<N>\<close> and
  \<^verbatim>\<open>operator=(const char rhs[])\<close> on the store; the last argument of the last two is the
  address of the array \<^verbatim>\<open>s\<close> of the destination.
\<close>

type_synonym heap = "byte list list"

type_synonym pointer = "nat \<times> nat"

definition strlen_at :: "heap \<Rightarrow> pointer \<Rightarrow> fault + nat" where
  "strlen_at h p =
     (if fst p < length h then strlen (drop (snd p) (h ! fst p)) else Inl OutOfBounds)"

fun copy_from_at :: "heap \<Rightarrow> pointer \<Rightarrow> nat \<Rightarrow> pointer \<Rightarrow> fault + heap" where
  "copy_from_at h (a, i) 0 (b, j) = Inr h"
| "copy_from_at h (a, i) (Suc k) (b, j) =
     (if a < length h \<and> b < length h \<and> i < length (h ! a) \<and> j < length (h ! b)
      then copy_from_at (h[b := (h ! b)[j := h ! a ! i]]) (a, Suc i) k (b, Suc j)
      else Inl OutOfBounds)"

definition copy_n_impl_at :: "nat \<Rightarrow> heap \<Rightarrow> pointer \<Rightarrow> nat \<Rightarrow> nat \<Rightarrow> fault + heap" where
  "copy_n_impl_at N h src src_len dst =
     (let min_len = min src_len N in
      case copy_from_at h src min_len (dst, 0) of
        Inl e \<Rightarrow> Inl e
      | Inr h' \<Rightarrow>
          if \<not> dst < length h' then Inl OutOfBounds
          else
            (case store (h' ! dst) min_len 0 of
               Inl e \<Rightarrow> Inl e
             | Inr a \<Rightarrow> Inr (h'[dst := a])))"

definition assign_ptr_at :: "nat \<Rightarrow> heap \<Rightarrow> pointer \<Rightarrow> nat \<Rightarrow> fault + heap" where
  "assign_ptr_at N h rhs this =
     (case strlen_at h rhs of
        Inl e \<Rightarrow> Inl e
      | Inr n \<Rightarrow> copy_n_impl_at N h rhs n this)"

section \<open>Facts about the library functions\<close>

lemma copy_from_length:
  "copy_from i src k dst = Inr d \<Longrightarrow> length d = length dst"
  by (induction k arbitrary: i dst) (auto split: if_splits)

lemma copy_from_nth:
  "copy_from i src k dst = Inr d \<Longrightarrow> j < length dst \<Longrightarrow>
     d ! j = (if i \<le> j \<and> j < i + k then src ! j else dst ! j)"
proof (induction k arbitrary: i dst)
  case 0 then show ?case by auto
next
  case (Suc k)
  from Suc.prems(1) have b: "i < length src" "i < length dst"
    and r: "copy_from (Suc i) src k (dst[i := src ! i]) = Inr d"
    by (auto split: if_splits)
  have "d ! j = (if Suc i \<le> j \<and> j < Suc i + k then src ! j else dst[i := src ! i] ! j)"
    using Suc.IH[OF r] Suc.prems(2) by simp
  then show ?case
    using Suc.prems(2) by (cases "j = i") (auto simp: nth_list_update)
qed

lemma copy_from_ok:
  "i + k \<le> length src \<Longrightarrow> i + k \<le> length dst \<Longrightarrow> \<exists>d. copy_from i src k dst = Inr d"
  by (induction k arbitrary: i dst) auto

lemma copy_from_fault:
  "0 < k \<Longrightarrow> length src < i + k \<or> length dst < i + k \<Longrightarrow> copy_from i src k dst = Inl OutOfBounds"
proof (induction k arbitrary: i dst)
  case 0 then show ?case by simp
next
  case (Suc k)
  show ?case
  proof (cases "i < length src \<and> i < length dst")
    case False then show ?thesis by auto
  next
    case True
    then have "0 < k" using Suc.prems by auto
    with Suc.IH[of "Suc i" "dst[i := src ! i]"] Suc.prems True show ?thesis by auto
  qed
qed

lemma copy_n_eq:
  "copy_n src n dst =
     (if n = 0 \<or> (n \<le> length src \<and> n \<le> length dst)
      then Inr (take n src @ drop n dst) else Inl OutOfBounds)"
proof (cases "n = 0 \<or> (n \<le> length src \<and> n \<le> length dst)")
  case False
  then show ?thesis using copy_from_fault[of n src 0 dst] by (auto simp: copy_n_def)
next
  case True
  show ?thesis
  proof (cases "n = 0")
    case True then show ?thesis by (simp add: copy_n_def)
  next
    case False
    with True have le: "n \<le> length src" "n \<le> length dst" by auto
    then obtain d where d: "copy_from 0 src n dst = Inr d"
      using copy_from_ok[of 0 n src dst] by auto
    have len: "length d = length dst" using d by (rule copy_from_length)
    have "d = take n src @ drop n dst"
    proof (rule nth_equalityI)
      show "length d = length (take n src @ drop n dst)" using len le by simp
    next
      fix j assume "j < length d"
      then have j: "j < length dst" using len by simp
      show "d ! j = (take n src @ drop n dst) ! j"
        using copy_from_nth[OF d j] le j by (auto simp: nth_append)
    qed
    with d True show ?thesis by (simp add: copy_n_def)
  qed
qed

lemma store_terminator:
  assumes "m \<le> length src" "m < length dst"
  shows "(take m src @ drop m dst)[m := c] = take m src @ c # drop (Suc m) dst"
proof -
  have "(take m src @ drop m dst)[m := c] = take m src @ (drop m dst)[0 := c]"
    using assms by (simp add: list_update_append)
  also have "(drop m dst)[0 := c] = c # drop (Suc m) dst"
    using assms(2) by (simp add: Cons_nth_drop_Suc [symmetric])
  finally show ?thesis .
qed

lemma copy_n_impl_eq:
  "copy_n_impl N src src_len dst =
     (if min src_len N \<le> length src \<and> min src_len N < length dst
      then Inr (take (min src_len N) src @ 0 # drop (Suc (min src_len N)) dst)
      else Inl OutOfBounds)"
proof -
  define m where "m = min src_len N"
  show ?thesis
  proof (cases "m \<le> length src \<and> m < length dst")
    case True
    then have "copy_n src m dst = Inr (take m src @ drop m dst)"
      by (simp add: copy_n_eq)
    moreover have "store (take m src @ drop m dst) m 0 = Inr (take m src @ 0 # drop (Suc m) dst)"
      using True by (simp add: store_def store_terminator)
    ultimately show ?thesis using True
      by (simp add: copy_n_impl_def Let_def m_def [symmetric])
  next
    case False
    show ?thesis
    proof (cases "m = 0")
      case True
      with False have "length dst = 0" by simp
      with True show ?thesis
        by (simp add: copy_n_impl_def Let_def m_def [symmetric] copy_n_eq store_def)
    next
      case nz: False
      show ?thesis
      proof (cases "m \<le> length src \<and> m \<le> length dst")
        case True
        with False have "length dst = m" by simp
        with True nz False show ?thesis
          by (simp add: copy_n_impl_def Let_def m_def [symmetric] copy_n_eq store_def)
      next
        case False
        with nz show ?thesis
          by (auto simp add: copy_n_impl_def Let_def m_def [symmetric] copy_n_eq)
      qed
    qed
  qed
qed

subsection \<open>\<^verbatim>\<open>strlen\<close>\<close>

lemma strlen_append_terminator:
  "0 \<notin> set xs \<Longrightarrow> strlen (xs @ 0 # ys) = Inr (length xs)"
  by (induction xs) auto

lemma strlen_Inr_D:
  "strlen a = Inr n \<Longrightarrow> n < length a \<and> a ! n = 0 \<and> 0 \<notin> set (take n a)"
proof (induction a arbitrary: n)
  case Nil then show ?case by simp
next
  case (Cons c cs)
  show ?case
  proof (cases "c = 0")
    case True
    with Cons.prems have "n = 0" by simp
    with True show ?thesis by simp
  next
    case False
    with Cons.prems obtain k where k: "strlen cs = Inr k" "n = Suc k"
      by (cases "strlen cs") auto
    from Cons.IH[OF k(1)] False k(2) show ?thesis by simp
  qed
qed

lemma strlen_Inr_I:
  assumes "n < length a" "a ! n = 0" "0 \<notin> set (take n a)"
  shows "strlen a = Inr n"
proof -
  have "a = take n a @ 0 # drop (Suc n) a"
    using assms(1,2) id_take_nth_drop[of n a] by simp
  then have "strlen a = strlen (take n a @ 0 # drop (Suc n) a)" by simp
  also have "\<dots> = Inr (length (take n a))"
    using assms(3) by (rule strlen_append_terminator)
  finally show ?thesis using assms(1) by simp
qed

lemma strlen_returns_iff: "(\<exists>n. strlen a = Inr n) \<longleftrightarrow> 0 \<in> set a"
proof (induction a)
  case Nil then show ?case by simp
next
  case (Cons c cs) then show ?case by (auto split: sum.splits)
qed

lemma strlen_fault: "0 \<notin> set a \<Longrightarrow> strlen a = Inl OutOfBounds"
  by (induction a) auto

lemma strlen_le: "strlen a = Inr n \<Longrightarrow> n < length a"
  by (simp add: strlen_Inr_D)

lemma strlen_takeWhile: "strlen a = Inr n \<Longrightarrow> take n a = takeWhile (\<lambda>c. c \<noteq> 0) a"
proof (induction a arbitrary: n)
  case Nil then show ?case by simp
next
  case (Cons c cs) then show ?case by (cases n) (auto split: sum.splits if_splits)
qed

lemma source_count_returns:
  "well_formed src \<Longrightarrow> \<exists>cnt. source_count src = Inr cnt \<and> min cnt N \<le> length (source_array src)"
proof (cases src)
  case (FromPtr rhs)
  assume "well_formed src"
  with FromPtr obtain n where n: "strlen rhs = Inr n" using strlen_returns_iff[of rhs] by auto
  then have "n < length rhs" by (rule strlen_le)
  with n FromPtr show ?thesis by simp
qed (auto simp: sstring_storage_def c_str_def string_c_str_def string_length_def)

lemma assign_eq:
  "source_count src = Inr cnt \<Longrightarrow>
   assign N src this = copy_n_impl N (source_array src) cnt this"
  by (cases src) (auto simp: assign_sstring_def assign_array_def assign_ptr_def assign_string_def)

lemma assign_result:
  assumes "well_formed src" "sstring_storage N this"
  shows "\<exists>cnt. source_count src = Inr cnt \<and>
          assign N src this =
            Inr (take (min cnt N) (source_array src) @ 0 # drop (Suc (min cnt N)) this)"
proof -
  from source_count_returns[OF assms(1), of N] obtain cnt
    where c: "source_count src = Inr cnt" "min cnt N \<le> length (source_array src)" by auto
  have "min cnt N < length this" using assms(2) by (simp add: sstring_storage_def)
  with c show ?thesis by (simp add: assign_eq copy_n_impl_eq)
qed

section \<open>Facts about the class\<close>

lemma notin_set_take: "x \<notin> set xs \<Longrightarrow> x \<notin> set (take n xs)"
  by (auto dest: in_set_takeD)

lemma terminated_result:
  assumes "0 \<notin> set xs"
  shows "sstring_length (xs @ 0 # ys) = Inr (length xs)"
    and "take (length xs) (c_str (xs @ 0 # ys)) = xs"
    and "c_str (xs @ 0 # ys) ! length xs = 0"
  using assms by (simp_all add: sstring_length_def c_str_def strlen_append_terminator)



lemma strlen_append: "strlen xs = Inr n \<Longrightarrow> strlen (xs @ ys) = Inr n"
proof (induction xs arbitrary: n)
  case Nil then show ?case by simp
next
  case (Cons c cs)
  show ?case
  proof (cases "c = 0")
    case True with Cons.prems show ?thesis by simp
  next
    case False
    with Cons.prems obtain k where k: "strlen cs = Inr k" "n = Suc k"
      by (cases "strlen cs") auto
    from Cons.IH[OF k(1)] False k(2) show ?thesis by simp
  qed
qed


lemma written_prefix:
  fixes P :: "byte list"
  shows "\<exists>l. strlen (P @ 0 # ys) = Inr l \<and> strlen (P @ 0 # zs) = Inr l
           \<and> take (Suc l) (P @ 0 # ys) = take (Suc l) (P @ 0 # zs)"
proof -
  have "0 \<in> set (P @ [0])" by simp
  then obtain l where l: "strlen (P @ [0]) = Inr l"
    using strlen_returns_iff[of "P @ [0]"] by blast
  from strlen_le[OF l] have le: "l \<le> length P" by simp
  have s: "strlen ((P @ [0]) @ ys) = Inr l" "strlen ((P @ [0]) @ zs) = Inr l"
    using l by (rule strlen_append)+
  have tk: "take n (as @ bs) = take n as" if "n \<le> length as" for n and as bs :: "byte list"
    using that by simp
  have "Suc l \<le> length (P @ [0])" using le by simp
  then have "take (Suc l) ((P @ [0]) @ ys) = take (Suc l) ((P @ [0]) @ zs)"
    by (simp only: tk)
  with s show ?thesis by simp
qed







subsection \<open>The text of an array\<close>







subsection \<open>The store and separate arrays\<close>

lemma copy_from_at_unfold:
  "0 < k \<Longrightarrow> copy_from_at h (a, i) k (b, j) =
     (if a < length h \<and> b < length h \<and> i < length (h ! a) \<and> j < length (h ! b)
      then copy_from_at (h[b := (h ! b)[j := h ! a ! i]]) (a, Suc i) (k - 1) (b, Suc j)
      else Inl OutOfBounds)"
  by (cases k) simp_all

lemma copy_from_at_separate:
  assumes "a \<noteq> b" and "a < length h" and "b < length h"
  shows "copy_from_at h (a, k + i) c (b, i) =
           (case copy_from i (drop k (h ! a)) c (h ! b) of
              Inl e \<Rightarrow> Inl e
            | Inr d \<Rightarrow> Inr (h[b := d]))"
  using assms(2,3)
proof (induction c arbitrary: h i)
  case 0
  then show ?case by simp
next
  case (Suc c)
  show ?case
  proof (cases "k + i < length (h ! a) \<and> i < length (h ! b)")
    case False
    then show ?thesis using Suc.prems by auto
  next
    case True
    define h' where "h' = h[b := (h ! b)[i := h ! a ! (k + i)]]"
    have l: "a < length h'" "b < length h'" using Suc.prems by (simp_all add: h'_def)
    have ha: "h' ! a = h ! a" using assms(1) by (simp add: h'_def)
    have hb: "h' ! b = (h ! b)[i := h ! a ! (k + i)]" using Suc.prems by (simp add: h'_def)
    have ov: "h'[b := d] = h[b := d]" for d by (simp add: h'_def)
    have "copy_from_at h (a, k + i) (Suc c) (b, i) = copy_from_at h' (a, k + Suc i) c (b, Suc i)"
      using True Suc.prems by (simp add: h'_def)
    also have "\<dots> = (case copy_from (Suc i) (drop k (h' ! a)) c (h' ! b) of
              Inl e \<Rightarrow> Inl e | Inr d \<Rightarrow> Inr (h'[b := d]))"
      using l by (rule Suc.IH)
    also have "\<dots> = (case copy_from (Suc i) (drop k (h ! a)) c
                        ((h ! b)[i := h ! a ! (k + i)]) of
              Inl e \<Rightarrow> Inl e | Inr d \<Rightarrow> Inr (h[b := d]))"
      by (simp only: ha hb ov)
    finally have lhs: "copy_from_at h (a, k + i) (Suc c) (b, i) =
          (case copy_from (Suc i) (drop k (h ! a)) c ((h ! b)[i := h ! a ! (k + i)]) of
              Inl e \<Rightarrow> Inl e | Inr d \<Rightarrow> Inr (h[b := d]))" .
    have "drop k (h ! a) ! i = h ! a ! (k + i)" using True by simp
    moreover have "i < length (drop k (h ! a))" using True by (simp add: less_diff_conv add.commute)
    ultimately have "copy_from i (drop k (h ! a)) (Suc c) (h ! b) =
          copy_from (Suc i) (drop k (h ! a)) c ((h ! b)[i := h ! a ! (k + i)])"
      using True by simp
    with lhs show ?thesis by (simp only:)
  qed
qed

lemma assign_ptr_at_separate:
  assumes "a \<noteq> b" and "a < length h" and "b < length h"
  shows "assign_ptr_at N h (a, k) b =
           (case assign_ptr N (drop k (h ! a)) (h ! b) of
              Inl e \<Rightarrow> Inl e
            | Inr d \<Rightarrow> Inr (h[b := d]))"
proof (cases "strlen (drop k (h ! a))")
  case (Inl e)
  then show ?thesis using assms(2) by (simp add: assign_ptr_at_def strlen_at_def assign_ptr_def)
next
  case (Inr n)
  have cp: "copy_from_at h (a, k) (min n N) (b, 0) =
           (case copy_from 0 (drop k (h ! a)) (min n N) (h ! b) of
              Inl e \<Rightarrow> Inl e | Inr d \<Rightarrow> Inr (h[b := d]))"
    using copy_from_at_separate[OF assms, of k 0 "min n N"] by simp
  show ?thesis
  proof (cases "copy_from 0 (drop k (h ! a)) (min n N) (h ! b)")
    case (Inl e)
    with cp Inr show ?thesis using assms(2)
      by (simp add: assign_ptr_at_def strlen_at_def assign_ptr_def copy_n_impl_at_def
          copy_n_impl_def copy_n_def Let_def)
  next
    case (Inr d)
    with cp \<open>strlen (drop k (h ! a)) = Inr n\<close> show ?thesis using assms(2,3)
      by (cases "store d (min n N) 0")
        (simp_all add: assign_ptr_at_def strlen_at_def assign_ptr_def copy_n_impl_at_def
          copy_n_impl_def copy_n_def Let_def)
  qed
qed

section \<open>Copy between capacities\<close>

text \<open>
  Claim C1, amended. For all capacities \<open>N\<close> and \<open>M\<close> that differ and every source
  \<^verbatim>\<open>sstring<M>\<close>, whatever its array holds, assigning it to an \<^verbatim>\<open>sstring<N>\<close> (or
  constructing an \<^verbatim>\<open>sstring<N>\<close> from it) returns with the first \<open>min N M\<close> bytes of the
  source's array at the front of the destination and the terminator at offset
  \<open>min N M\<close>. The count is taken from the declared capacity \<open>M\<close>: the position of the
  terminator in the source plays no part, and bytes after it are copied like the others.
\<close>

theorem assign_sstring_copies_min_capacity:
  assumes "M \<noteq> N" and "sstring_storage M rhs" and "sstring_storage N this"
  shows "assign_sstring N M rhs this =
           Inr (take (min N M) (c_str rhs) @ 0 # drop (Suc (min N M)) this)
       \<and> ctor_sstring N M rhs this =
           Inr (take (min N M) (c_str rhs) @ 0 # drop (Suc (min N M)) this)"
proof -
  have "min M N \<le> length (c_str rhs)"
    using assms(2) by (simp add: sstring_storage_def c_str_def)
  moreover have "min M N < length this"
    using assms(3) by (simp add: sstring_storage_def)
  ultimately have "assign_sstring N M rhs this =
      Inr (take (min M N) (c_str rhs) @ 0 # drop (Suc (min M N)) this)"
    by (simp add: assign_sstring_def copy_n_impl_eq)
  then show ?thesis using assms(1) by (simp add: ctor_sstring_def min.commute)
qed

text \<open>
  The source below has capacity 4 and logical length 1; the bytes 120 and 121 after its
  terminator reach the destination.
\<close>

theorem assign_sstring_copies_min_capacity_witness:
  "(4::nat) \<noteq> 6
   \<and> sstring_storage 4 [104, 0, 120, 121, 0] \<and> sstring_storage 6 [1, 1, 1, 1, 1, 1, 1]
   \<and> assign_sstring 6 4 [104, 0, 120, 121, 0] [1, 1, 1, 1, 1, 1, 1] = Inr [104, 0, 120, 121, 0, 1, 1]
   \<and> ctor_sstring 6 4 [104, 0, 120, 121, 0] [1, 1, 1, 1, 1, 1, 1] = Inr [104, 0, 120, 121, 0, 1, 1]"
proof -
  have n: "(4::nat) \<noteq> 6" by simp
  have a: "sstring_storage 4 [104, 0, 120, 121, 0]" by (simp add: sstring_storage_def)
  have b: "sstring_storage 6 [1, 1, 1, 1, 1, 1, 1]" by (simp add: sstring_storage_def)
  show ?thesis
    using a b assign_sstring_copies_min_capacity [OF n a b] by (simp add: c_str_def)
qed

text \<open>
  For \<open>M = N\<close> construction is the implicit copy, which copies all \<open>N + 1\<close> bytes and
  writes no terminator. The source below is an \<^verbatim>\<open>sstring<2>\<close> as the pointer constructor
  leaves it on storage whose last byte is 9; the copy has 9, not the terminator, at
  offset \<open>min 2 2\<close>.
\<close>

theorem ctor_sstring_same_capacity_counterexample:
  "construct 2 (FromPtr [104, 0]) [7, 7, 9] = Inr [104, 0, 9]
   \<and> sstring_storage 2 [104, 0, 9] \<and> sstring_storage 2 [7, 7, 7]
   \<and> ctor_sstring 2 2 [104, 0, 9] [7, 7, 7] = Inr [104, 0, 9]
   \<and> [104, 0, 9 :: byte] ! min 2 2 \<noteq> 0
   \<and> ctor_sstring 2 2 [104, 0, 9] [7, 7, 7]
       \<noteq> Inr (take (min 2 2) (c_str [104, 0, 9]) @ 0 # drop (Suc (min 2 2)) [7, 7, 7])"
  by (simp add: ctor_ptr_def assign_ptr_def copy_n_impl_eq sstring_storage_def
      ctor_sstring_def implicit_copy_def copy_n_eq c_str_def)

section \<open>Construction from text\<close>

text \<open>
  Claim C2. Let \<open>S\<close> be a byte sequence without a zero byte, longer than the capacity
  \<open>N\<close>. Constructing an \<^verbatim>\<open>sstring<N>\<close> from \<open>S\<close> followed by its terminator (as a
  character array, through a pointer, as the array of an \<^verbatim>\<open>sstring<M>\<close>) or from a
  \<^verbatim>\<open>std::string\<close> holding \<open>S\<close> returns an object with \<^verbatim>\<open>length()\<close> equal to \<open>N\<close>, whose first
  \<open>N\<close> bytes are the first \<open>N\<close> bytes of \<open>S\<close> and whose byte at offset \<open>N\<close> is the terminator.
\<close>

theorem construct_truncates:
  assumes "0 \<notin> set S" and "N < length S" and "sstring_storage N raw"
  shows "\<exists>d. construct N (FromArray (length (S @ 0 # rest)) (S @ 0 # rest)) raw = Inr d
           \<and> construct N (FromPtr (S @ 0 # rest)) raw = Inr d
           \<and> construct N (FromString S) raw = Inr d
           \<and> construct N (FromSString (length (S @ rest)) (S @ 0 # rest)) raw = Inr d
           \<and> sstring_length d = Inr N
           \<and> take N (c_str d) = take N S
           \<and> c_str d ! N = 0"
proof -
  define d where "d = take N S @ 0 # drop (Suc N) raw"
  have len: "length (take N S) = N" using assms(2) by simp
  have nz: "0 \<notin> set (take N S)" using assms(1) by (rule notin_set_take)
  have raw: "N < length raw" using assms(3) by (simp add: sstring_storage_def)
  have tk: "take N (S @ xs) = take N S" for xs using assms(2) by simp
  have sl: "strlen (S @ 0 # rest) = Inr (length S)"
    using assms(1) by (rule strlen_append_terminator)
  have m1: "min (Suc (length S + length rest)) N = N" using assms(2) by simp
  have m2: "min (length S) N = N" using assms(2) by simp
  have m3: "min (length S + length rest) N = N" using assms(2) by simp
  have ne: "length S + length rest \<noteq> N" using assms(2) by simp
  have "construct N (FromArray (length (S @ 0 # rest)) (S @ 0 # rest)) raw = Inr d"
    using raw assms(2) by (simp add: ctor_array_def assign_ptr_def sl copy_n_impl_eq m2 tk d_def)
  moreover have "construct N (FromPtr (S @ 0 # rest)) raw = Inr d"
    using raw assms(2) by (simp add: ctor_ptr_def assign_ptr_def sl copy_n_impl_eq m2 tk d_def)
  moreover have "construct N (FromString S) raw = Inr d"
    using raw assms(2)
    by (simp add: ctor_string_def assign_string_def string_c_str_def string_length_def
        copy_n_impl_eq m2 tk d_def)
  moreover have "construct N (FromSString (length (S @ rest)) (S @ 0 # rest)) raw = Inr d"
    using raw assms(2)
    by (simp add: ctor_sstring_def ne assign_sstring_def c_str_def copy_n_impl_eq m3 tk d_def)
  moreover have "sstring_length d = Inr N" "take N (c_str d) = take N S" "c_str d ! N = 0"
    using terminated_result[OF nz, of "drop (Suc N) raw"] len by (simp_all add: d_def)
  ultimately show ?thesis by blast
qed

theorem construct_truncates_witness:
  "(0::byte) \<notin> set [104, 101, 108, 108, 111] \<and> (3::nat) < length [104, 101, 108, 108, 111 :: byte]
   \<and> sstring_storage 3 [7, 7, 7, 7]
   \<and> construct 3 (FromArray 6 [104, 101, 108, 108, 111, 0]) [7, 7, 7, 7] = Inr [104, 101, 108, 0]
   \<and> construct 3 (FromPtr [104, 101, 108, 108, 111, 0]) [7, 7, 7, 7] = Inr [104, 101, 108, 0]
   \<and> construct 3 (FromString [104, 101, 108, 108, 111]) [7, 7, 7, 7] = Inr [104, 101, 108, 0]
   \<and> construct 3 (FromSString 5 [104, 101, 108, 108, 111, 0]) [7, 7, 7, 7] = Inr [104, 101, 108, 0]
   \<and> sstring_length [104, 101, 108, 0] = Inr 3"
proof -
  have a: "(0::byte) \<notin> set [104, 101, 108, 108, 111]" by simp
  have b: "(3::nat) < length [104, 101, 108, 108, 111 :: byte]" by simp
  have c: "sstring_storage 3 [7, 7, 7, 7]" by (simp add: sstring_storage_def)
  have l: "length ([104, 101, 108, 108, 111 :: byte] @ 0 # []) = 6"
    "length ([104, 101, 108, 108, 111 :: byte] @ []) = 5" by simp_all
  have ap: "[104, 101, 108, 108, 111 :: byte] @ 0 # [] = [104, 101, 108, 108, 111, 0]" by simp
  from construct_truncates [OF a b c, of "[]", unfolded l, unfolded ap] obtain d where
    d: "construct 3 (FromArray 6 [104, 101, 108, 108, 111, 0]) [7, 7, 7, 7] = Inr d"
       "construct 3 (FromPtr [104, 101, 108, 108, 111, 0]) [7, 7, 7, 7] = Inr d"
       "construct 3 (FromString [104, 101, 108, 108, 111]) [7, 7, 7, 7] = Inr d"
       "construct 3 (FromSString 5 [104, 101, 108, 108, 111, 0]) [7, 7, 7, 7] = Inr d"
       "sstring_length d = Inr 3"
    by blast
  have "construct 3 (FromString [104, 101, 108, 108, 111]) [7, 7, 7, 7] = Inr [104, 101, 108, 0]"
    by (simp add: ctor_string_def assign_string_def string_c_str_def string_length_def
        copy_n_impl_eq)
  with d(3) have "d = [104, 101, 108, 0]" by simp
  with a b c d show ?thesis by simp
qed

text \<open>
  Claim C3. Let \<open>S\<close> be a byte sequence without a zero byte, of length at most the
  capacity \<open>N\<close>. Constructing an \<^verbatim>\<open>sstring<N>\<close> through a pointer to \<open>S\<close> followed by its
  terminator (and any bytes after it), or from a \<^verbatim>\<open>std::string\<close> holding \<open>S\<close>, returns
  an object with \<^verbatim>\<open>length()\<close> equal to the length of \<open>S\<close>, whose array starts with \<open>S\<close>
  and has the terminator right after it.
\<close>

theorem construct_round_trip:
  assumes "0 \<notin> set S" and "length S \<le> N" and "sstring_storage N raw"
  shows "\<exists>d. construct N (FromPtr (S @ 0 # rest)) raw = Inr d
           \<and> construct N (FromString S) raw = Inr d
           \<and> sstring_length d = Inr (length S)
           \<and> take (length S) (c_str d) = S
           \<and> c_str d ! length S = 0"
proof -
  define d where "d = S @ 0 # drop (Suc (length S)) raw"
  have raw: "length S < length raw" using assms(2,3) by (simp add: sstring_storage_def)
  have sl: "strlen (S @ 0 # rest) = Inr (length S)"
    using assms(1) by (rule strlen_append_terminator)
  have m: "min (length S) N = length S" using assms(2) by simp
  have "construct N (FromPtr (S @ 0 # rest)) raw = Inr d"
    using raw by (simp add: ctor_ptr_def assign_ptr_def sl copy_n_impl_eq m d_def)
  moreover have "construct N (FromString S) raw = Inr d"
    using raw
    by (simp add: ctor_string_def assign_string_def string_c_str_def string_length_def
        copy_n_impl_eq m d_def)
  moreover have "sstring_length d = Inr (length S)" "take (length S) (c_str d) = S"
    "c_str d ! length S = 0"
    using terminated_result[OF assms(1), of "drop (Suc (length S)) raw"] by (simp_all add: d_def)
  ultimately show ?thesis by blast
qed

theorem construct_round_trip_witness:
  "(0::byte) \<notin> set [104, 105] \<and> length [104, 105 :: byte] \<le> 4
   \<and> sstring_storage 4 [7, 7, 7, 7, 7]
   \<and> construct 4 (FromPtr [104, 105, 0, 9]) [7, 7, 7, 7, 7] = Inr [104, 105, 0, 7, 7]
   \<and> construct 4 (FromString [104, 105]) [7, 7, 7, 7, 7] = Inr [104, 105, 0, 7, 7]
   \<and> sstring_length [104, 105, 0, 7, 7] = Inr 2"
proof -
  have a: "(0::byte) \<notin> set [104, 105]" by simp
  have b: "length [104, 105 :: byte] \<le> 4" by simp
  have c: "sstring_storage 4 [7, 7, 7, 7, 7]" by (simp add: sstring_storage_def)
  have l: "length [104, 105 :: byte] = 2" by simp
  have ap: "[104, 105 :: byte] @ 0 # [9] = [104, 105, 0, 9]" by simp
  from construct_round_trip [OF a b c, of "[9]", unfolded l ap] obtain d where
    d: "construct 4 (FromPtr [104, 105, 0, 9]) [7, 7, 7, 7, 7] = Inr d"
       "construct 4 (FromString [104, 105]) [7, 7, 7, 7, 7] = Inr d"
       "sstring_length d = Inr 2"
    by blast
  have "construct 4 (FromString [104, 105]) [7, 7, 7, 7, 7] = Inr [104, 105, 0, 7, 7]"
    by (simp add: ctor_string_def assign_string_def string_c_str_def string_length_def
        copy_n_impl_eq)
  with d(2) have "d = [104, 105, 0, 7, 7]" by simp
  with a b c d show ?thesis by simp
qed

section \<open>The terminator invariant\<close>




section \<open>Array bounds\<close>




section \<open>Constructors and assignment\<close>




text \<open>
  Claim C7, amended. For every capacity, every source of any of the four shapes that
  does not overlap the array of the destination and every starting state of the
  destination, assigning the source a second time leaves the array as the first
  assignment left it.
\<close>

theorem assign_idempotent:
  assumes "well_formed src" and "sstring_storage N this"
  shows "\<exists>d. assign N src this = Inr d \<and> assign N src d = Inr d"
proof -
  from assign_result[OF assms] obtain cnt where c: "source_count src = Inr cnt"
    and d: "assign N src this =
          Inr (take (min cnt N) (source_array src) @ 0 # drop (Suc (min cnt N)) this)"
    by blast
  define d where "d = take (min cnt N) (source_array src) @ 0 # drop (Suc (min cnt N)) this"
  from source_count_returns[OF assms(1), of N] c
  have le: "min cnt N \<le> length (source_array src)" by simp
  have st: "sstring_storage N d"
    using assms(2) le by (simp add: d_def sstring_storage_def)
  have "drop (Suc (min cnt N)) d = drop (Suc (min cnt N)) this"
    using le by (simp add: d_def)
  with assign_result[OF assms(1) st] c have "assign N src d = Inr d"
    by (simp add: d_def)
  with d show ?thesis by (simp add: d_def)
qed

theorem assign_idempotent_witness:
  "well_formed (FromPtr [104, 105, 0]) \<and> sstring_storage 4 [1, 2, 3, 4, 5]
   \<and> assign 4 (FromPtr [104, 105, 0]) [1, 2, 3, 4, 5] = Inr [104, 105, 0, 4, 5]
   \<and> assign 4 (FromPtr [104, 105, 0]) [104, 105, 0, 4, 5] = Inr [104, 105, 0, 4, 5]"
proof -
  have a: "well_formed (FromPtr [104, 105, 0])" by simp
  have b: "sstring_storage 4 [1, 2, 3, 4, 5]" by (simp add: sstring_storage_def)
  have e: "assign 4 (FromPtr [104, 105, 0]) [1, 2, 3, 4, 5] = Inr [104, 105, 0, 4, 5]"
    by (simp add: assign_ptr_def copy_n_impl_eq)
  from assign_idempotent [OF a b] e
  have "assign 4 (FromPtr [104, 105, 0]) [104, 105, 0, 4, 5] = Inr [104, 105, 0, 4, 5]"
    by auto
  with a b e show ?thesis by simp
qed

text \<open>
  A source inside the destination: the store holds one \<^verbatim>\<open>sstring<4>\<close> with the text
  \<^verbatim>\<open>abc\<close>, and the pointer is \<^verbatim>\<open>c_str() + 1\<close>. The first assignment leaves \<^verbatim>\<open>bc\<close>, the
  second assignment of the same pointer leaves \<^verbatim>\<open>c\<close>.
\<close>

theorem assign_ptr_into_destination_counterexample:
  "assign_ptr_at 4 [[97, 98, 99, 0, 7]] (0, 1) 0 = Inr [[98, 99, 0, 0, 7]]
   \<and> assign_ptr_at 4 [[98, 99, 0, 0, 7]] (0, 1) 0 = Inr [[99, 0, 0, 0, 7]]
   \<and> [[98, 99, 0, 0, 7 :: byte]] \<noteq> [[99, 0, 0, 0, 7]]"
  by (simp add: assign_ptr_at_def strlen_at_def copy_n_impl_at_def store_def
      copy_from_at_unfold)

section \<open>Stream insertion of an object\<close>

text \<open>
  Claim C8, amended. For an \<^verbatim>\<open>sstring<N>\<close> whose array holds a terminator and a stream
  that is good and whose field width is not greater than the length of the object (0
  unless set), \<^verbatim>\<open>operator<<\<close> appends to the stream it is given the bytes of the array
  before the first terminator, without the terminator, leaves every other stream as it
  was and returns the stream it was given; the number of bytes written is \<^verbatim>\<open>length()\<close>.
\<close>

theorem ostream_insert_writes_content:
  assumes "sstring_storage N this" and "0 \<in> set this"
    and "stream < length \<sigma>" and "good (\<sigma> ! stream)"
    and "width (\<sigma> ! stream) \<le> length (takeWhile (\<lambda>c. c \<noteq> 0) (c_str this))"
  shows "ostream_insert \<sigma> stream this =
           Inr (\<sigma>[stream := (\<sigma> ! stream)
                  \<lparr>width := 0,
                   written := written (\<sigma> ! stream) @ takeWhile (\<lambda>c. c \<noteq> 0) (c_str this)\<rparr>],
                stream)
       \<and> sstring_length this = Inr (length (takeWhile (\<lambda>c. c \<noteq> 0) (c_str this)))"
proof -
  from assms(2) obtain n where n: "strlen this = Inr n"
    using strlen_returns_iff[of this] by blast
  have tw: "take n this = takeWhile (\<lambda>c. c \<noteq> 0) this"
    using n by (rule strlen_takeWhile)
  have "n < length this" using n by (rule strlen_le)
  then have "length (take n this) = n" by simp
  with tw have len: "length (takeWhile (\<lambda>c. c \<noteq> 0) this) = n" by simp
  with assms(5) have "width (\<sigma> ! stream) - n = 0" by (simp add: c_str_def)
  with n tw len assms(3,4) show ?thesis
    by (simp add: ostream_insert_def ostream_insert_cstr_def c_str_def sstring_length_def
        Let_def)
qed

theorem ostream_insert_writes_content_witness:
  "sstring_storage 4 [104, 105, 0, 120, 0] \<and> (0::byte) \<in> set [104, 105, 0, 120, 0]
   \<and> ostream_insert
        [\<lparr>good = True, width = 0, fill = 32, adjust_left = False, written = [62]\<rparr>]
        0 [104, 105, 0, 120, 0]
      = Inr ([\<lparr>good = True, width = 0, fill = 32, adjust_left = False,
               written = [62, 104, 105]\<rparr>], 0)
   \<and> sstring_length [104, 105, 0, 120, 0] = Inr 2"
proof -
  have a: "sstring_storage 4 [104, 105, 0, 120, 0]" by (simp add: sstring_storage_def)
  have b: "(0::byte) \<in> set [104, 105, 0, 120, 0]" by simp
  from ostream_insert_writes_content [OF a b,
      of 0 "[\<lparr>good = True, width = 0, fill = 32, adjust_left = False, written = [62]\<rparr>]"]
  show ?thesis using a b by (simp add: c_str_def)
qed

text \<open>
  With the field width set to 5 the inserter writes three fill characters before the
  two characters of the object, and a stream that is not good receives nothing.
\<close>

theorem ostream_insert_width_counterexample:
  "ostream_insert
     [\<lparr>good = True, width = 5, fill = 32, adjust_left = False, written = []\<rparr>]
     0 [104, 105, 0, 120, 0]
   = Inr ([\<lparr>good = True, width = 0, fill = 32, adjust_left = False,
            written = [32, 32, 32, 104, 105]\<rparr>], 0)
   \<and> [32, 32, 32, 104, 105] \<noteq> [104, 105 :: byte]
   \<and> ostream_insert
       [\<lparr>good = False, width = 0, fill = 32, adjust_left = False, written = []\<rparr>]
       0 [104, 105, 0, 120, 0]
     = Inr ([\<lparr>good = False, width = 0, fill = 32, adjust_left = False, written = []\<rparr>], 0)"
  by (simp add: ostream_insert_def ostream_insert_cstr_def c_str_def Let_def
      numeral_3_eq_3)

section \<open>Length after a copy between capacities\<close>

text \<open>
  Claim C9. If the source \<^verbatim>\<open>sstring<M>\<close> has \<^verbatim>\<open>length()\<close> equal to \<open>L\<close>, then after assigning
  it to an \<^verbatim>\<open>sstring<N>\<close> the destination has \<^verbatim>\<open>length()\<close> equal to \<open>min N L\<close>.
\<close>

theorem assign_sstring_length:
  assumes "sstring_storage M rhs" and "sstring_length rhs = Inr L"
    and "sstring_storage N this"
  shows "\<exists>d. assign_sstring N M rhs this = Inr d \<and> sstring_length d = Inr (min N L)"
proof -
  define m where "m = min M N"
  define d where "d = take m rhs @ 0 # drop (Suc m) this"
  have lr: "length rhs = Suc M" and lt: "length this = Suc N"
    using assms(1,3) by (simp_all add: sstring_storage_def)
  have sl: "strlen rhs = Inr L" using assms(2) by (simp add: sstring_length_def)
  note D = strlen_Inr_D[OF sl]
  have LM: "L \<le> M" using D lr by simp
  have "min M N \<le> length rhs" "min M N < length this"
    using lr lt by simp_all
  then have res: "assign_sstring N M rhs this = Inr d"
    by (simp add: assign_sstring_def copy_n_impl_eq c_str_def d_def m_def)
  have lm: "length (take m rhs) = m" using lr by (simp add: m_def)
  have "strlen d = Inr (min N L)"
  proof (cases "L < m")
    case True
    have "L < length d" using True lm by (simp add: d_def)
    moreover have "d ! L = 0" using True lm D by (simp add: d_def nth_append)
    moreover have "take L d = take L rhs" using True lm by (simp add: d_def min_def)
    then have "0 \<notin> set (take L d)" using D by simp
    ultimately have "strlen d = Inr L" by (rule strlen_Inr_I)
    moreover have "min N L = L" using True by (simp add: m_def)
    ultimately show ?thesis by simp
  next
    case False
    then have "take m rhs = take m (take L rhs)" by (simp add: min_def)
    then have "0 \<notin> set (take m rhs)" using D notin_set_take[of 0 "take L rhs" m] by simp
    then have "strlen d = Inr (length (take m rhs))"
      unfolding d_def by (rule strlen_append_terminator)
    moreover have "m = min N L" using False LM by (auto simp: m_def)
    ultimately show ?thesis using lm by simp
  qed
  with res show ?thesis by (simp add: sstring_length_def)
qed

theorem assign_sstring_length_witness:
  "sstring_storage 4 [104, 0, 120, 121, 0] \<and> sstring_length [104, 0, 120, 121, 0] = Inr 1
   \<and> sstring_storage 6 [1, 1, 1, 1, 1, 1, 1]
   \<and> assign_sstring 6 4 [104, 0, 120, 121, 0] [1, 1, 1, 1, 1, 1, 1] = Inr [104, 0, 120, 121, 0, 1, 1]
   \<and> sstring_length [104, 0, 120, 121, 0, 1, 1] = Inr 1
   \<and> sstring_storage 2 [7, 7, 7] \<and> sstring_storage 4 [104, 105, 106, 107, 0]
   \<and> sstring_length [104, 105, 106, 107, 0] = Inr 4
   \<and> assign_sstring 2 4 [104, 105, 106, 107, 0] [7, 7, 7] = Inr [104, 105, 0]
   \<and> sstring_length [104, 105, 0] = Inr 2"
proof -
  have a: "sstring_storage 4 [104, 0, 120, 121, 0]" "sstring_storage 6 [1, 1, 1, 1, 1, 1, 1]"
    "sstring_storage 2 [7, 7, 7]" "sstring_storage 4 [104, 105, 106, 107, 0]"
    by (simp_all add: sstring_storage_def)
  have l: "sstring_length [104, 0, 120, 121, 0] = Inr 1"
    "sstring_length [104, 105, 106, 107, 0] = Inr 4"
    by (simp_all add: sstring_length_def)
  have e: "assign_sstring 6 4 [104, 0, 120, 121, 0] [1, 1, 1, 1, 1, 1, 1] = Inr [104, 0, 120, 121, 0, 1, 1]"
    "assign_sstring 2 4 [104, 105, 106, 107, 0] [7, 7, 7] = Inr [104, 105, 0]"
    by (simp_all add: assign_sstring_def c_str_def copy_n_impl_eq)
  from assign_sstring_length [OF a(1) l(1) a(2)] e(1)
  have "sstring_length [104, 0, 120, 121, 0, 1, 1] = Inr 1" by simp
  moreover from assign_sstring_length [OF a(4) l(2) a(3)] e(2)
  have "sstring_length [104, 105, 0] = Inr 2" by simp
  ultimately show ?thesis using a l e by simp
qed

section \<open>Frame of an assignment\<close>

text \<open>
  Claim C10. An assignment from a source for which the overload passes the count \<open>cnt\<close>
  to \<^verbatim>\<open>copy_n_impl\<close> keeps the size of the array and leaves every byte at an index
  greater than \<open>min cnt N\<close> as it was before the assignment.
\<close>

theorem assign_frame:
  assumes "well_formed src" and "sstring_storage N this"
  shows "\<exists>d cnt. assign N src this = Inr d \<and> source_count src = Inr cnt
           \<and> length d = length this
           \<and> drop (Suc (min cnt N)) d = drop (Suc (min cnt N)) this
           \<and> (\<forall>i. min cnt N < i \<and> i \<le> N \<longrightarrow> d ! i = this ! i)"
proof -
  from assign_result[OF assms] obtain cnt where c: "source_count src = Inr cnt"
    and d: "assign N src this =
          Inr (take (min cnt N) (source_array src) @ 0 # drop (Suc (min cnt N)) this)"
    by blast
  define m where "m = min cnt N"
  define d where "d = take m (source_array src) @ 0 # drop (Suc m) this"
  from source_count_returns[OF assms(1), of N] c
  have le: "m \<le> length (source_array src)" by (simp add: m_def)
  have lt: "length this = Suc N" using assms(2) by (simp add: sstring_storage_def)
  have mN: "m \<le> N" by (simp add: m_def)
  have len: "length d = length this" using le lt mN by (simp add: d_def)
  have dr: "drop (Suc m) d = drop (Suc m) this" using le by (simp add: d_def)
  have "d ! i = this ! i" if "m < i" "i \<le> N" for i
  proof -
    have "d ! i = drop (Suc m) d ! (i - Suc m)" using that len lt by simp
    also have "\<dots> = this ! i" using that lt by (simp add: dr)
    finally show ?thesis .
  qed
  with d c len dr show ?thesis by (auto simp: d_def m_def)
qed

theorem assign_frame_witness:
  "well_formed (FromPtr [104, 105, 0]) \<and> sstring_storage 6 [1, 2, 3, 4, 5, 6, 7]
   \<and> assign 6 (FromPtr [104, 105, 0]) [1, 2, 3, 4, 5, 6, 7] = Inr [104, 105, 0, 4, 5, 6, 7]
   \<and> source_count (FromPtr [104, 105, 0]) = Inr 2"
proof -
  have a: "well_formed (FromPtr [104, 105, 0])" by simp
  have b: "sstring_storage 6 [1, 2, 3, 4, 5, 6, 7]" by (simp add: sstring_storage_def)
  have e: "assign 6 (FromPtr [104, 105, 0]) [1, 2, 3, 4, 5, 6, 7] = Inr [104, 105, 0, 4, 5, 6, 7]"
    "source_count (FromPtr [104, 105, 0]) = Inr 2"
    by (simp_all add: assign_ptr_def copy_n_impl_eq)
  from assign_frame [OF a b] show ?thesis using a b e by simp
qed

end
